theory Spec2Isabelle
  imports Complex_Main "HOL-Library.AList"
begin

section \<open>The protocol detector of vdsm/protocoldetector.py\<close>

text \<open>
  The module runs on a reactor: every callback is one non-blocking step. The model
  gives each callback the clock reading of \<open>monotonic_time()\<close> as an argument
  (a real number standing for the float of the source) and returns the dispatcher
  it was called on, with everything the callback did to it recorded in order.
\<close>

subsection \<open>Sockets\<close>

text \<open>
  The socket object of the standard library, as far as \<open>handle_read\<close> uses it:
  \<^item> \<open>rx\<close>: the bytes that arrived and were not consumed yet;
  \<^item> \<open>eof\<close>: the peer has shut its side down (a read of an empty queue then
    returns the empty string instead of failing with \<open>EWOULDBLOCK\<close>);
  \<^item> \<open>pending_error\<close>: the error number a read fails with, if any;
  \<^item> \<open>peer\<close>: what \<open>getpeername()\<close> answers while the socket is open;
    \<open>None\<close> when it raises \<open>socket.error\<close>;
  \<^item> \<open>is_closed\<close>: \<open>close()\<close> was called on the socket object. Every method
    of a closed socket object raises \<open>socket.error\<close> with \<open>EBADF\<close>.
\<close>

datatype errno = EWOULDBLOCK | EBADF | ENOTCONN | ECONNRESET

datatype exc = SocketError errno | ValueError

record sock =
  rx :: string
  eof :: bool
  pending_error :: "errno option"
  peer :: "(string \<times> int) option"
  is_closed :: bool

text \<open>
  \<open>sock.recv(bufsize, flags)\<close>. The flag is \<open>True\<close> for \<open>MSG_PEEK\<close>: the bytes
  returned stay in the queue. Without it they are removed. A negative size is a
  \<open>ValueError\<close>; on a closed socket the call fails before it looks at its
  arguments.
\<close>

definition recv :: "int \<Rightarrow> bool \<Rightarrow> sock \<Rightarrow> (exc + string) \<times> sock" where
  "recv bufsize msg_peek s =
     (if is_closed s then (Inl (SocketError EBADF), s)
      else if bufsize < 0 then (Inl ValueError, s)
      else case pending_error s of
        Some e \<Rightarrow> (Inl (SocketError e), s)
      | None \<Rightarrow>
          if rx s = [] \<and> \<not> eof s then (Inl (SocketError EWOULDBLOCK), s)
          else (Inr (take (nat bufsize) (rx s)),
                if msg_peek then s else s\<lparr>rx := drop (nat bufsize) (rx s)\<rparr>))"

definition getpeername :: "sock \<Rightarrow> exc + (string \<times> int)" where
  "getpeername s =
     (if is_closed s then Inl (SocketError EBADF)
      else case peer s of None \<Rightarrow> Inl (SocketError ENOTCONN) | Some a \<Rightarrow> Inr a)"

subsection \<open>Detectors, dispatchers and what a callback does to them\<close>

text \<open>The detector plug-in interface of the docstring of \<open>MultiProtocolAcceptor\<close>.\<close>

record detector =
  NAME :: string
  REQUIRED_SIZE :: int
  detect :: "string \<Rightarrow> bool"

datatype level = DEBUG | INFO | WARNING

datatype message =
    UsingRequiredSize int
  | TimedOut
  | Detected string string int
  | Unrecognized string

text \<open>
  The calls a callback makes on objects that live outside this module: the logger,
  the dispatcher (\<open>close\<close>, \<open>handle_error\<close>) and the winning detector
  (\<open>handle_dispatcher\<close>, the handoff).
\<close>

datatype event =
    Log level message
  | Close
  | HandleError
  | Handoff detector "string \<times> int"

text \<open>
  \<open>_ProtocolDetector\<close>: the fields \<open>__init__\<close> computes. The field
  \<open>_detectors\<close> is the very list object the acceptor keeps as \<open>_handlers\<close>
  (line 82 stores the reference), so the functions below take its current content
  as their first argument.
\<close>

record protocol_detector =
  required_size :: int
  give_up_at :: real

text \<open>
  Modelled from the spec: \<open>SSLHandshakeDispatcher\<close> (vdsm.sslutils) is missing;
  the module only constructs it (lines 189 to 193) and hands it the callback
  \<open>_register_protocol_detector\<close>. Section 4.4: the handshake must complete
  within \<open>handshake_timeout\<close> from handle creation, and on success the "promote
  to detector" callback is invoked.
\<close>

record ssl_handshake =
  handshake_give_up_at :: real

definition SSLHandshakeDispatcher_init :: "real \<Rightarrow> real \<Rightarrow> ssl_handshake" where
  "SSLHandshakeDispatcher_init timeout now = \<lparr>handshake_give_up_at = now + timeout\<rparr>"

datatype impl = NoImpl | Handshaking ssl_handshake | Detecting protocol_detector

text \<open>
  Modelled from the spec: the class \<open>Dispatcher\<close> (yajsonrpc.betterAsyncore) is
  missing. The model keeps its socket, its current implementation and the trace
  of the calls made on it (and on the logger and the detectors on its behalf).
  Its \<open>close()\<close> closes the connection (section 4.5, step 3; section 7): the
  call is recorded and the dispatcher's socket, the object \<open>handle_read\<close>
  holds as \<open>sock\<close>, is closed.
\<close>

record dispatcher =
  socket :: sock
  impl :: impl
  trace :: "event list"

definition Dispatcher :: "impl \<Rightarrow> sock \<Rightarrow> dispatcher" where
  "Dispatcher i s = \<lparr>socket = s, impl = i, trace = []\<rparr>"

definition emit :: "event \<Rightarrow> dispatcher \<Rightarrow> dispatcher" where
  "emit e d = d\<lparr>trace := trace d @ [e]\<rparr>"

definition close :: "dispatcher \<Rightarrow> dispatcher" where
  "close d = emit Close (d\<lparr>socket := (socket d)\<lparr>is_closed := True\<rparr>\<rparr>)"

definition switch_implementation :: "impl \<Rightarrow> dispatcher \<Rightarrow> dispatcher" where
  "switch_implementation i d = d\<lparr>impl := i\<rparr>"

subsection \<open>\<open>_ProtocolDetector\<close>\<close>

text \<open>
  \<open>__init__\<close> (lines 81 to 85). \<open>max\<close> of an empty sequence raises
  \<open>ValueError\<close>; otherwise it starts from the first element and keeps the larger
  one. The clock is read after that, and the deadline is that reading plus the
  timeout. (The debug line about the size goes to the class logger and is not
  recorded.)
\<close>

definition ProtocolDetector_init ::
  "detector list \<Rightarrow> real \<Rightarrow> real \<Rightarrow> exc + protocol_detector" where
  "ProtocolDetector_init detectors timeout now =
     (case detectors of
        [] \<Rightarrow> Inl ValueError
      | h # hs \<Rightarrow>
          Inr \<lparr>required_size = fold max (map REQUIRED_SIZE hs) (REQUIRED_SIZE h),
               give_up_at = now + timeout\<rparr>)"

text \<open>\<open>next_check_interval\<close> (lines 90 and 91).\<close>

definition next_check_interval :: "protocol_detector \<Rightarrow> real \<Rightarrow> real" where
  "next_check_interval self now = min (give_up_at self - now) 0"

text \<open>
  The \<open>for ... else\<close> of lines 110 to 123: the first detector whose \<open>detect\<close>
  accepts the data gets the dispatcher and the loop ends; the \<open>else\<close> branch runs
  when the list is exhausted. \<open>getpeername\<close> stands outside every \<open>try\<close>, so
  its error leaves the callback, and \<open>handle_dispatcher\<close> is not reached then.
\<close>

fun detect_loop :: "detector list \<Rightarrow> string \<Rightarrow> dispatcher \<Rightarrow> exc option \<times> dispatcher" where
  "detect_loop [] data d = (None, close (emit (Log WARNING (Unrecognized data)) d))"
| "detect_loop (x # xs) data d =
     (if detect x data then
        (case getpeername (socket d) of
           Inl e \<Rightarrow> (Some e, d)
         | Inr (host, port) \<Rightarrow>
             (None, emit (Handoff x (host, port))
                      (emit (Log INFO (Detected (NAME x) host port)) d)))
      else detect_loop xs data d)"

text \<open>
  \<open>handle_read\<close> (lines 93 to 123), statement by statement. The result is the
  exception that leaves the callback, if one does, and the dispatcher.
\<close>

definition handle_read ::
  "detector list \<Rightarrow> real \<Rightarrow> protocol_detector \<Rightarrow> dispatcher \<Rightarrow> exc option \<times> dispatcher" where
  "handle_read detectors now self d =
     (case recv (required_size self) True (socket d) of
        (Inl (SocketError why), s) \<Rightarrow>
          if why = EWOULDBLOCK then (None, d\<lparr>socket := s\<rparr>)
          else (None, emit HandleError (d\<lparr>socket := s\<rparr>))
      | (Inl ValueError, s) \<Rightarrow> (Some ValueError, d\<lparr>socket := s\<rparr>)
      | (Inr data, s) \<Rightarrow>
          if int (length data) < required_size self then (None, d\<lparr>socket := s\<rparr>)
          else
            detect_loop detectors data
              (if now > give_up_at self
               then close (emit (Log DEBUG TimedOut) (d\<lparr>socket := s\<rparr>))
               else d\<lparr>socket := s\<rparr>))"

subsection \<open>\<open>MultiProtocolAcceptor\<close>\<close>

datatype ssl_context = SSLContext

record acceptor =
  sslctx :: "ssl_context option"
  handlers :: "detector list"
  TIMEOUT :: real
  reactor :: "dispatcher list"

text \<open>\<open>_register_protocol_detector\<close> (lines 198 to 206).\<close>

definition register_protocol_detector ::
  "acceptor \<Rightarrow> real \<Rightarrow> dispatcher \<Rightarrow> exc + dispatcher" where
  "register_protocol_detector acc now d =
     (case ProtocolDetector_init (handlers acc) (TIMEOUT acc) now of
        Inl e \<Rightarrow> Inl e
      | Inr pd \<Rightarrow> Inr (switch_implementation (Detecting pd) d))"

text \<open>
  \<open>handle_accept\<close> (lines 177 to 196); \<open>add_dispatcher\<close> appends to the
  reactor's dispatchers.
\<close>

definition handle_accept :: "acceptor \<Rightarrow> real \<Rightarrow> sock \<Rightarrow> exc + acceptor" where
  "handle_accept acc now client =
     (if sslctx acc = None then
        (case register_protocol_detector acc now (Dispatcher NoImpl client) of
           Inl e \<Rightarrow> Inl e
         | Inr d \<Rightarrow> Inr (acc\<lparr>reactor := reactor acc @ [d]\<rparr>))
      else
        Inr (acc\<lparr>reactor := reactor acc @
               [Dispatcher (Handshaking (SSLHandshakeDispatcher_init (TIMEOUT acc) now)) client]\<rparr>))"

text \<open>\<open>add_detector\<close> (lines 213 to 215).\<close>

definition add_detector :: "detector \<Rightarrow> acceptor \<Rightarrow> acceptor" where
  "add_detector x acc = acc\<lparr>handlers := handlers acc @ [x]\<rparr>"

text \<open>The detectors that got the dispatcher, in the order of the handoffs.\<close>

fun handoffs :: "event list \<Rightarrow> detector list" where
  "handoffs [] = []"
| "handoffs (Handoff x a # es) = x # handoffs es"
| "handoffs (e # es) = handoffs es"

text \<open>What a callback added to the trace of the dispatcher it was called on.\<close>

definition new_events :: "dispatcher \<Rightarrow> dispatcher \<Rightarrow> event list" where
  "new_events d d' = drop (length (trace d)) (trace d')"

subsection \<open>Example inputs\<close>

text \<open>
  Two detectors that both accept the bytes \<open>PING\<close>, and an open, connected
  client socket holding given bytes.
\<close>

abbreviation ping :: detector where
  "ping \<equiv> \<lparr>NAME = ''ping'', REQUIRED_SIZE = 4, detect = (\<lambda>data. take 4 data = ''PING'')\<rparr>"

abbreviation pi_any :: detector where
  "pi_any \<equiv> \<lparr>NAME = ''pi'', REQUIRED_SIZE = 2, detect = (\<lambda>data. take 2 data = ''PI'')\<rparr>"

abbreviation client :: "string \<Rightarrow> sock" where
  "client bytes \<equiv>
     \<lparr>rx = bytes, eof = False, pending_error = None, peer = Some (''10.0.0.1'', 4242),
      is_closed = False\<rparr>"

section \<open>The readers-writer lock\<close>

text \<open>
  Modelled from the spec: the class \<open>RWLock\<close> (storage.misc) is missing; only its
  tests (tests/rwlock_test.py) are among the sources. The definitions of this
  section follow sections 3 and 4.1 of the specification:
  \<^item> the holders are an exclusive entry (at most one identity, with its recursion
    count) and shared entries (identity and positive count); an identity that
    holds exclusive and acquires shared gets a shared entry beside its exclusive
    one;
  \<^item> the wait queue keeps the arrival order;
  \<^item> the granting rule looks at the head of the queue: an exclusive head is
    granted when the lock is idle, and one waiter is popped; a shared head is
    granted, and so are the shared waiters that follow it, up to the first
    exclusive waiter;
  \<^item> a request by an identity that holds the lock already is answered at once
    (recursion, demotion, or the programmer error of a promotion); any other
    request joins the queue and the granting rule runs;
  \<^item> a release drops one count of the caller, the exclusive one first, and the
    granting rule runs.
  A call that would block in a thread answers \<open>Blocked\<close> and leaves the caller
  in the queue.
\<close>

type_synonym ident = nat

datatype lock_mode = Shared | Exclusive

datatype owner_mode = Idle | OwnedShared | OwnedExclusive

datatype reply = Done | Blocked | ProgrammerError

record rwlock =
  holder_exclusive :: "(ident \<times> nat) option"
  holders_shared :: "(ident \<times> nat) list"
  wait_queue :: "(ident \<times> lock_mode) list"

definition RWLock :: rwlock where
  "RWLock = \<lparr>holder_exclusive = None, holders_shared = [], wait_queue = []\<rparr>"

definition current_owner_mode :: "rwlock \<Rightarrow> owner_mode" where
  "current_owner_mode s =
     (case holder_exclusive s of
        Some h \<Rightarrow> OwnedExclusive
      | None \<Rightarrow> if holders_shared s = [] then Idle else OwnedShared)"

definition holds_exclusive :: "rwlock \<Rightarrow> ident \<Rightarrow> bool" where
  "holds_exclusive s t = (case holder_exclusive s of Some (u, n) \<Rightarrow> u = t | None \<Rightarrow> False)"

definition holds_shared :: "rwlock \<Rightarrow> ident \<Rightarrow> bool" where
  "holds_shared s t = (map_of (holders_shared s) t \<noteq> None)"

definition holds :: "rwlock \<Rightarrow> ident \<Rightarrow> bool" where
  "holds s t = (holds_exclusive s t \<or> holds_shared s t)"

definition grant_shared :: "ident \<Rightarrow> rwlock \<Rightarrow> rwlock" where
  "grant_shared t s =
     s\<lparr>holders_shared :=
         AList.update t (case map_of (holders_shared s) t of None \<Rightarrow> 1 | Some n \<Rightarrow> Suc n)
           (holders_shared s)\<rparr>"

text \<open>The granting rule, run over the queue from its head.\<close>

fun grant :: "(ident \<times> lock_mode) list \<Rightarrow> rwlock \<Rightarrow> rwlock" where
  "grant [] s = s\<lparr>wait_queue := []\<rparr>"
| "grant ((t, Exclusive) # q) s =
     (if current_owner_mode s = Idle
      then s\<lparr>holder_exclusive := Some (t, 1), wait_queue := q\<rparr>
      else s\<lparr>wait_queue := (t, Exclusive) # q\<rparr>)"
| "grant ((t, Shared) # q) s =
     (if holder_exclusive s = None
      then grant q (grant_shared t s)
      else s\<lparr>wait_queue := (t, Shared) # q\<rparr>)"

definition wake :: "rwlock \<Rightarrow> rwlock" where
  "wake s = grant (wait_queue s) s"

definition enqueue :: "ident \<Rightarrow> lock_mode \<Rightarrow> rwlock \<Rightarrow> reply \<times> rwlock" where
  "enqueue t m s =
     (let s' = wake (s\<lparr>wait_queue := wait_queue s @ [(t, m)]\<rparr>)
      in (if (case m of Shared \<Rightarrow> holds_shared s' t | Exclusive \<Rightarrow> holds_exclusive s' t)
          then Done else Blocked, s'))"

definition acquire_shared :: "ident \<Rightarrow> rwlock \<Rightarrow> reply \<times> rwlock" where
  "acquire_shared t s =
     (if holds_shared s t \<or> holds_exclusive s t then (Done, grant_shared t s)
      else enqueue t Shared s)"

definition acquire_exclusive :: "ident \<Rightarrow> rwlock \<Rightarrow> reply \<times> rwlock" where
  "acquire_exclusive t s =
     (case holder_exclusive s of
        Some (u, n) \<Rightarrow>
          if u = t then (Done, s\<lparr>holder_exclusive := Some (t, Suc n)\<rparr>)
          else if holds_shared s t then (ProgrammerError, s)
          else enqueue t Exclusive s
      | None \<Rightarrow>
          if holds_shared s t then (ProgrammerError, s)
          else enqueue t Exclusive s)"

definition release :: "ident \<Rightarrow> rwlock \<Rightarrow> reply \<times> rwlock" where
  "release t s =
     (if holds_exclusive s t then
        (case holder_exclusive s of
           Some (u, n) \<Rightarrow>
             (Done, wake (s\<lparr>holder_exclusive := (if n \<le> 1 then None else Some (u, n - 1))\<rparr>))
         | None \<Rightarrow> (ProgrammerError, s))
      else
        (case map_of (holders_shared s) t of
           None \<Rightarrow> (ProgrammerError, s)
         | Some n \<Rightarrow>
             (Done, wake (s\<lparr>holders_shared :=
                (if n \<le> 1 then AList.delete t (holders_shared s)
                 else AList.update t (n - 1) (holders_shared s))\<rparr>))))"

text \<open>
  Threads interleave their calls; a run of the lock is the sequence of the calls
  in the order the lock sees them.
\<close>

datatype request = AcquireShared ident | AcquireExclusive ident | Release ident

fun step :: "request \<Rightarrow> rwlock \<Rightarrow> rwlock" where
  "step (AcquireShared t) s = snd (acquire_shared t s)"
| "step (AcquireExclusive t) s = snd (acquire_exclusive t s)"
| "step (Release t) s = snd (release t s)"

definition run :: "request list \<Rightarrow> rwlock \<Rightarrow> rwlock" where
  "run rs s = fold step rs s"

text \<open>
  \<open>ahead s a b\<close>: in state \<open>s\<close> the identity \<open>a\<close> waits for exclusive, no entry
  of \<open>b\<close> stands before it in the queue, and \<open>b\<close> holds nothing. So \<open>b\<close> either waits
  behind \<open>a\<close> or has not asked yet.
\<close>

definition ahead :: "rwlock \<Rightarrow> ident \<Rightarrow> ident \<Rightarrow> bool" where
  "ahead s a b =
     (\<not> holds s b \<and> (a, Exclusive) \<in> set (takeWhile (\<lambda>w. fst w \<noteq> b) (wait_queue s)))"

section \<open>Properties of the protocol detector\<close>

subsection \<open>Reading with a peek\<close>

lemma recv_peek_socket: "snd (recv n True s) = s"
  by (simp add: recv_def split: option.splits)

lemma recv_peek_pair: "recv n True s = (fst (recv n True s), s)"
  using recv_peek_socket [of n s] by (metis prod.collapse)

lemma recv_peek_data:
  "fst (recv n True s) = Inr data \<Longrightarrow>
   data = take (nat n) (rx s) \<and> 0 \<le> n \<and> \<not> is_closed s"
  by (auto simp: recv_def split: option.splits if_splits)

lemma recv_peek_then_read:
  "fst (recv n True s) = Inr data \<Longrightarrow> fst (recv n False s) = Inr data"
  by (auto simp: recv_def split: option.splits if_splits)


lemma recv_without_peek_consumes:
  "recv 4 False (client ''PING...'') = (Inr ''PING'', client ''...'')"
  by (simp add: recv_def)

lemma new_events_append: "new_events d (d'\<lparr>trace := trace d @ tr\<rparr>) = tr"
  by (simp add: new_events_def)

lemma new_events_same: "new_events d d = []"
  by (simp add: new_events_def)

lemma handoffs_append: "handoffs (es @ fs) = handoffs es @ handoffs fs"
  by (induction es rule: handoffs.induct) simp_all

text \<open>The loop, by the first detector that accepts the data.\<close>

lemma detect_loop_find:
  "detect_loop ds data d =
     (case find (\<lambda>x. detect x data) ds of
        None \<Rightarrow>
          (None, d\<lparr>socket := (socket d)\<lparr>is_closed := True\<rparr>,
                   trace := trace d @ [Log WARNING (Unrecognized data), Close]\<rparr>)
      | Some x \<Rightarrow>
          (case getpeername (socket d) of
             Inl e \<Rightarrow> (Some e, d)
           | Inr a \<Rightarrow>
               (None, d\<lparr>trace := trace d @
                  [Log INFO (Detected (NAME x) (fst a) (snd a)), Handoff x a]\<rparr>)))"
  by (induction ds) (auto simp: emit_def close_def split: sum.splits)

text \<open>The callback, once the peek has returned enough bytes.\<close>

lemma handle_read_full:
  assumes "fst (recv (required_size self) True (socket d)) = Inr data"
    and "required_size self \<le> int (length data)"
  shows "handle_read detectors now self d =
     detect_loop detectors data
       (if now > give_up_at self
        then d\<lparr>socket := (socket d)\<lparr>is_closed := True\<rparr>,
               trace := trace d @ [Log DEBUG TimedOut, Close]\<rparr>
        else d)"
proof -
  have "recv (required_size self) True (socket d) = (Inr data, socket d)"
    using assms(1) recv_peek_pair [of "required_size self" "socket d"] by simp
  then show ?thesis using assms(2) by (simp add: handle_read_def emit_def close_def)
qed

text \<open>The callback, when the peek has not returned enough bytes.\<close>

lemma handle_read_not_full:
  assumes "\<not> (\<exists>data. fst (recv (required_size self) True (socket d)) = Inr data
              \<and> required_size self \<le> int (length data))"
  shows "new_events d (snd (handle_read detectors now self d)) \<in> {[], [HandleError]}
    \<and> socket (snd (handle_read detectors now self d)) = socket d"
proof (cases "fst (recv (required_size self) True (socket d))")
  case (Inl e)
  then have "recv (required_size self) True (socket d) = (Inl e, socket d)"
    using recv_peek_pair [of "required_size self" "socket d"] by simp
  then show ?thesis
    by (cases e) (simp_all add: handle_read_def emit_def new_events_def)
next
  case (Inr data)
  then have r: "recv (required_size self) True (socket d) = (Inr data, socket d)"
    using recv_peek_pair [of "required_size self" "socket d"] by simp
  have "int (length data) < required_size self" using assms Inr by auto
  then show ?thesis using r by (simp add: handle_read_def new_events_def)
qed

lemma detect_loop_outcome:
  "new_events d (snd (detect_loop ds data d)) = [Log WARNING (Unrecognized data), Close]
   \<or> new_events d (snd (detect_loop ds data d)) = []
   \<or> (\<exists>x a. new_events d (snd (detect_loop ds data d))
          = [Log INFO (Detected (NAME x) (fst a) (snd a)), Handoff x a]
        \<and> find (\<lambda>x. detect x data) ds = Some x
        \<and> \<not> is_closed (socket d)
        \<and> socket (snd (detect_loop ds data d)) = socket d)"
  by (auto simp: detect_loop_find getpeername_def new_events_def
      split: option.splits sum.splits if_splits)

lemma detect_loop_socket:
  "socket (snd (detect_loop ds data d))
     = (socket d)\<lparr>is_closed := is_closed (socket (snd (detect_loop ds data d)))\<rparr>"
  by (auto simp: detect_loop_find split: option.splits sum.splits)

lemma detect_loop_closed:
  "is_closed (socket d) \<Longrightarrow> handoffs (new_events d (snd (detect_loop ds data d))) = []"
  by (auto simp: detect_loop_find getpeername_def new_events_def split: option.splits)

lemma fold_max_Max: "fold max xs (x::int) = Max (set (x # xs))"
  using Max.set_eq_fold [of x xs] by simp

lemma register_protocol_detector_value:
  "handlers acc \<noteq> [] \<Longrightarrow>
   register_protocol_detector acc now d =
     Inr (d\<lparr>impl := Detecting
            \<lparr>required_size = Max (REQUIRED_SIZE ` set (handlers acc)),
             give_up_at = now + TIMEOUT acc\<rparr>\<rparr>)"
  by (cases "handlers acc")
    (simp_all add: register_protocol_detector_def ProtocolDetector_init_def
      switch_implementation_def fold_max_Max)

text \<open>
  What one call of \<open>handle_read\<close> adds to the trace: nothing, a
  \<open>handle_error\<close>, the warning and a close, the handoff to the first detector
  that accepts the data; and after the deadline the debug line and a close, and
  then at most the warning and a second close.
\<close>

lemma handle_read_outcome:
  "new_events d (snd (handle_read detectors now self d)) \<in>
     {[], [HandleError], [Log DEBUG TimedOut, Close]}
   \<or> (\<exists>data. new_events d (snd (handle_read detectors now self d))
          = [Log WARNING (Unrecognized data), Close]
        \<or> new_events d (snd (handle_read detectors now self d))
          = [Log DEBUG TimedOut, Close, Log WARNING (Unrecognized data), Close])
   \<or> (\<exists>x a. new_events d (snd (handle_read detectors now self d))
          = [Log INFO (Detected (NAME x) (fst a) (snd a)), Handoff x a]
        \<and> socket (snd (handle_read detectors now self d)) = socket d)"
proof (cases "\<exists>data. fst (recv (required_size self) True (socket d)) = Inr data
              \<and> required_size self \<le> int (length data)")
  case False
  then show ?thesis using handle_read_not_full [OF False, of detectors now] by auto
next
  case True
  then obtain data where r: "fst (recv (required_size self) True (socket d)) = Inr data"
    and l: "required_size self \<le> int (length data)" by blast
  note full = handle_read_full [OF r l, of detectors now]
  show ?thesis
  proof (cases "now > give_up_at self")
    case True
    show ?thesis unfolding full using True
      by (auto simp: detect_loop_find getpeername_def new_events_def split: option.splits)
  next
    case False
    show ?thesis unfolding full using False detect_loop_outcome [of d detectors data]
      by auto
  qed
qed

subsection \<open>The deadline and the handoff\<close>



text \<open>
  C2. Claim: when the handle is switched to a protocol detector by
  \<open>_register_protocol_detector\<close>, the deadline is not reset; the give-up time is
  not recomputed as the current time plus the timeout.

  The code constructs a new \<open>_ProtocolDetector\<close> at the switch, whose
  \<open>__init__\<close> reads the clock then. A handshake handle created at time 0 with a
  timeout of 10 has the deadline 10; switched at time 5, the detector gives up
  at 15.
\<close>

theorem register_protocol_detector_keeps_deadline_counterexample:
  "handle_accept \<lparr>sslctx = Some SSLContext, handlers = [ping], TIMEOUT = 10, reactor = []\<rparr>
       0 (client '''')
     = Inr \<lparr>sslctx = Some SSLContext, handlers = [ping], TIMEOUT = 10,
            reactor = [Dispatcher (Handshaking \<lparr>handshake_give_up_at = 10\<rparr>) (client '''')]\<rparr>
   \<and> register_protocol_detector
       \<lparr>sslctx = Some SSLContext, handlers = [ping], TIMEOUT = 10, reactor = []\<rparr> 5
       (Dispatcher (Handshaking \<lparr>handshake_give_up_at = 10\<rparr>) (client ''''))
     = Inr (Dispatcher (Detecting \<lparr>required_size = 4, give_up_at = 15\<rparr>) (client ''''))
   \<and> register_protocol_detector
       \<lparr>sslctx = Some SSLContext, handlers = [ping], TIMEOUT = 10, reactor = []\<rparr> 5
       (Dispatcher (Handshaking \<lparr>handshake_give_up_at = 10\<rparr>) (client ''''))
     \<noteq> Inr (Dispatcher (Detecting \<lparr>required_size = 4, give_up_at = 10\<rparr>) (client ''''))"
  by (simp add: handle_accept_def register_protocol_detector_def ProtocolDetector_init_def
      SSLHandshakeDispatcher_init_def Dispatcher_def switch_implementation_def)

text \<open>
  C2, as the code has it: whatever the dispatcher was doing before (a handshake
  with any deadline of its own), the detector installed by
  \<open>_register_protocol_detector\<close> at time \<open>now\<close> gives up at \<open>now\<close> plus the
  acceptor's timeout: detection gets a timeout of its own, counted from the
  switch.
\<close>

theorem register_protocol_detector_deadline:
  "handlers acc \<noteq> [] \<Longrightarrow>
   register_protocol_detector acc now d =
     Inr (d\<lparr>impl := Detecting
            \<lparr>required_size = Max (REQUIRED_SIZE ` set (handlers acc)),
             give_up_at = now + TIMEOUT acc\<rparr>\<rparr>)"
  by (rule register_protocol_detector_value)

theorem register_protocol_detector_deadline_witness:
  "register_protocol_detector
     \<lparr>sslctx = Some SSLContext, handlers = [pi_any, ping], TIMEOUT = 10, reactor = []\<rparr> 5
     (Dispatcher (Handshaking \<lparr>handshake_give_up_at = 10\<rparr>) (client ''''))
   = Inr (Dispatcher (Detecting \<lparr>required_size = 4, give_up_at = 15\<rparr>) (client ''''))"
  using register_protocol_detector_deadline
    [of "\<lparr>sslctx = Some SSLContext, handlers = [pi_any, ping], TIMEOUT = 10, reactor = []\<rparr>"
        5 "Dispatcher (Handshaking \<lparr>handshake_give_up_at = 10\<rparr>) (client '''')"]
  by (simp add: Dispatcher_def)

text \<open>
  C3. Claim: when \<open>handle_read\<close> runs after the deadline while fewer than
  \<open>required_size\<close> bytes are there (none at all included), the connection is
  closed and nothing is handed off.

  The code tests the length (line 103) before the deadline (line 106) and
  returns: with two of four bytes at time 11, deadline 10, nothing happens to the
  dispatcher; with no byte at all the read fails with \<open>EWOULDBLOCK\<close> and the
  callback returns as well.
\<close>

theorem handle_read_short_after_deadline:
  "handle_read [ping] 11 \<lparr>required_size = 4, give_up_at = 10\<rparr>
     (Dispatcher NoImpl (client ''PI''))
   = (None, Dispatcher NoImpl (client ''PI''))
   \<and> handle_read [ping] 11 \<lparr>required_size = 4, give_up_at = 10\<rparr>
     (Dispatcher NoImpl (client ''''))
   = (None, Dispatcher NoImpl (client ''''))"
  by (simp add: handle_read_def recv_def Dispatcher_def)

text \<open>
  C4. Claim: while the deadline lies in the future, \<open>next_check_interval\<close>
  returns the time left until the deadline, \<open>max (deadline - now) 0\<close>.

  The code takes the minimum with 0: with the deadline 10 at time 3 it returns 0,
  not 7.
\<close>

theorem next_check_interval_before_deadline:
  "next_check_interval \<lparr>required_size = 4, give_up_at = 10\<rparr> 3 = 0"
  by (simp add: next_check_interval_def)

lemma next_check_interval_nonpositive: "next_check_interval self now \<le> 0"
  by (simp add: next_check_interval_def)

subsection \<open>Matching in registration order\<close>

text \<open>
  C5. Claim: whenever the peek returned a prefix of \<open>required_size\<close> bytes that
  some registered detector accepts, \<open>handle_read\<close> hands the dispatcher to the
  first such detector.

  Not in every call: past the deadline the dispatcher is closed first and
  \<open>getpeername\<close> raises on the closed socket (first input below, time 11,
  deadline 10); and with the deadline ahead but a socket whose peer is gone
  \<open>getpeername\<close> raises as well (second input). Both detectors accept the
  bytes, and nobody gets the dispatcher.
\<close>

theorem handle_read_first_match_counterexample:
  "fst (recv 4 True (client ''PING'')) = Inr ''PING''
   \<and> detect pi_any ''PING'' \<and> detect ping ''PING''
   \<and> handle_read [pi_any, ping] 11 \<lparr>required_size = 4, give_up_at = 10\<rparr>
        (Dispatcher NoImpl (client ''PING''))
      = (Some (SocketError EBADF),
         \<lparr>socket = (client ''PING'')\<lparr>is_closed := True\<rparr>, impl = NoImpl,
           trace = [Log DEBUG TimedOut, Close]\<rparr>)
   \<and> handoffs [Log DEBUG TimedOut, Close] = []
   \<and> handle_read [pi_any, ping] 3 \<lparr>required_size = 4, give_up_at = 10\<rparr>
        (Dispatcher NoImpl ((client ''PING'')\<lparr>peer := None\<rparr>))
      = (Some (SocketError ENOTCONN), Dispatcher NoImpl ((client ''PING'')\<lparr>peer := None\<rparr>))"
  by (simp add: handle_read_def recv_def Dispatcher_def emit_def close_def getpeername_def)

text \<open>
  C5, as the code has it. Let the peek return a prefix of \<open>required_size\<close> bytes
  and let \<open>x\<close> be the first registered detector that accepts it (\<open>find\<close>
  returns it). If the deadline has not passed and \<open>getpeername\<close> answers, the
  call logs the detection and hands the dispatcher to \<open>x\<close>, and does nothing
  else, whether later detectors accept the prefix or not. If the deadline has
  passed or \<open>getpeername\<close> fails, no detector gets the dispatcher.
\<close>

theorem handle_read_first_match:
  assumes "fst (recv (required_size self) True (socket d)) = Inr data"
    and "int (length data) = required_size self"
    and "find (\<lambda>x. detect x data) detectors = Some x"
  shows "(now \<le> give_up_at self \<and> getpeername (socket d) = Inr (host, port) \<longrightarrow>
        handle_read detectors now self d =
          (None, d\<lparr>trace := trace d @
             [Log INFO (Detected (NAME x) host port), Handoff x (host, port)]\<rparr>))
    \<and> (now > give_up_at self \<or> getpeername (socket d) = Inl e \<longrightarrow>
        handoffs (new_events d (snd (handle_read detectors now self d))) = [])"
proof -
  have l: "required_size self \<le> int (length data)" using assms(2) by simp
  note full = handle_read_full [OF assms(1) l, of detectors now]
  show ?thesis unfolding full using assms(3)
    by (auto simp: detect_loop_find getpeername_def new_events_def split: if_splits)
qed

theorem handle_read_first_match_witness:
  "handle_read [pi_any, ping] 3 \<lparr>required_size = 4, give_up_at = 10\<rparr>
     (Dispatcher NoImpl (client ''PING''))
   = (None, \<lparr>socket = client ''PING'', impl = NoImpl,
        trace = [Log INFO (Detected ''pi'' ''10.0.0.1'' 4242),
                 Handoff pi_any (''10.0.0.1'', 4242)]\<rparr>)
   \<and> handoffs (new_events (Dispatcher NoImpl (client ''PING''))
        (snd (handle_read [pi_any, ping] 11 \<lparr>required_size = 4, give_up_at = 10\<rparr>
           (Dispatcher NoImpl (client ''PING''))))) = []"
  using handle_read_first_match
    [of "\<lparr>required_size = 4, give_up_at = 10\<rparr>" "Dispatcher NoImpl (client ''PING'')" "''PING''"
        "[pi_any, ping]" pi_any 3 "''10.0.0.1''" 4242]
    handle_read_first_match
    [of "\<lparr>required_size = 4, give_up_at = 10\<rparr>" "Dispatcher NoImpl (client ''PING'')" "''PING''"
        "[pi_any, ping]" pi_any 11]
  by (simp add: recv_def Dispatcher_def getpeername_def)

text \<open>
  C6. Detection does not consume bytes. Whatever \<open>handle_read\<close> does, the socket
  it leaves behind has every received byte still in its queue: it is the socket
  it found, except that it may have been closed. When the dispatcher was handed
  to a detector, the socket is the very socket the call found. And when the peek
  returned \<open>data\<close>, these are the first bytes of the connection, and a plain
  read of the same size afterwards (the read of the winning detector's handler)
  returns the same \<open>data\<close>, unless the call has closed the socket.
\<close>

theorem handle_read_does_not_consume:
  "socket (snd (handle_read detectors now self d))
     = (socket d)\<lparr>is_closed := is_closed (socket (snd (handle_read detectors now self d)))\<rparr>
   \<and> rx (socket (snd (handle_read detectors now self d))) = rx (socket d)
   \<and> (handoffs (new_events d (snd (handle_read detectors now self d))) \<noteq> [] \<longrightarrow>
        socket (snd (handle_read detectors now self d)) = socket d)
   \<and> (fst (recv (required_size self) True (socket d)) = Inr data \<longrightarrow>
        data = take (length data) (rx (socket d))
        \<and> (\<not> is_closed (socket (snd (handle_read detectors now self d))) \<longrightarrow>
             fst (recv (required_size self) False
                   (socket (snd (handle_read detectors now self d)))) = Inr data))"
proof -
  let ?d' = "snd (handle_read detectors now self d)"
  have frame: "socket ?d' = (socket d)\<lparr>is_closed := is_closed (socket ?d')\<rparr>"
  proof (cases "\<exists>data. fst (recv (required_size self) True (socket d)) = Inr data
              \<and> required_size self \<le> int (length data)")
    case False
    then show ?thesis using handle_read_not_full [OF False, of detectors now] by simp
  next
    case True
    then obtain data' where r: "fst (recv (required_size self) True (socket d)) = Inr data'"
      and l: "required_size self \<le> int (length data')" by blast
    show ?thesis unfolding handle_read_full [OF r l]
      by (auto simp: detect_loop_find split: option.splits sum.splits)
  qed
  then have bytes: "rx (socket ?d') = rx (socket d)"
    by (metis sock.select_convs(1) sock.surjective sock.update_convs(5))
  have handed: "socket ?d' = socket d" if "handoffs (new_events d ?d') \<noteq> []"
    using handle_read_outcome [of d detectors now self] that by auto
  have peeked: "data = take (length data) (rx (socket d))
      \<and> (\<not> is_closed (socket ?d') \<longrightarrow>
            fst (recv (required_size self) False (socket ?d')) = Inr data)"
    if r: "fst (recv (required_size self) True (socket d)) = Inr data"
  proof (intro conjI impI)
    have "data = take (nat (required_size self)) (rx (socket d))"
      using recv_peek_data [OF r] by simp
    then show "data = take (length data) (rx (socket d))"
      by (metis append_eq_conv_conj append_take_drop_id)
    assume "\<not> is_closed (socket ?d')"
    moreover have "\<not> is_closed (socket d)" using recv_peek_data [OF r] by simp
    ultimately have "socket ?d' = socket d" using frame by simp
    then show "fst (recv (required_size self) False (socket ?d')) = Inr data"
      using recv_peek_then_read [OF r] by simp
  qed
  show ?thesis using frame bytes handed peeked by blast
qed

theorem handle_read_does_not_consume_witness:
  "socket (snd (handle_read [ping, pi_any] 3 \<lparr>required_size = 4, give_up_at = 10\<rparr>
       (Dispatcher NoImpl (client ''PING and more'')))) = client ''PING and more''
   \<and> handoffs (new_events (Dispatcher NoImpl (client ''PING and more''))
        (snd (handle_read [ping, pi_any] 3 \<lparr>required_size = 4, give_up_at = 10\<rparr>
           (Dispatcher NoImpl (client ''PING and more''))))) = [ping]
   \<and> fst (recv 4 True (client ''PING and more'')) = Inr ''PING''
   \<and> fst (recv 4 False (socket (snd (handle_read [ping, pi_any] 3
        \<lparr>required_size = 4, give_up_at = 10\<rparr> (Dispatcher NoImpl (client ''PING and more''))))))
      = Inr ''PING''"
proof -
  let ?d = "Dispatcher NoImpl (client ''PING and more'')"
  let ?d' = "snd (handle_read [ping, pi_any] 3 \<lparr>required_size = 4, give_up_at = 10\<rparr> ?d)"
  have h: "handoffs (new_events ?d ?d') = [ping]"
    by (simp add: handle_read_def recv_def Dispatcher_def emit_def close_def getpeername_def
        new_events_def)
  have r: "fst (recv 4 True (client ''PING and more'')) = Inr ''PING''"
    by (simp add: recv_def)
  have "socket ?d' = socket ?d"
    using h handle_read_does_not_consume
      [of "[ping, pi_any]" 3 "\<lparr>required_size = 4, give_up_at = 10\<rparr>" ?d "''PING''"]
    by simp
  then have s: "socket ?d' = client ''PING and more''" by (simp add: Dispatcher_def)
  have "fst (recv 4 False (socket ?d')) = Inr ''PING''"
    unfolding s by (simp add: recv_def)
  with s h r show ?thesis by simp
qed

subsection \<open>No detector accepts the prefix\<close>

text \<open>
  C7. When the peek returned a prefix of the full \<open>required_size\<close> and no
  registered detector accepts it, \<open>handle_read\<close> logs the prefix at warning
  level and closes the dispatcher; the callback returns normally and nothing is
  handed off. (Past the deadline the debug line and the close of the deadline
  come first, so \<open>close\<close> is called twice.)
\<close>

theorem handle_read_no_match:
  assumes "fst (recv (required_size self) True (socket d)) = Inr data"
    and "int (length data) = required_size self"
    and "find (\<lambda>x. detect x data) detectors = None"
  shows "handle_read detectors now self d =
      (None, d\<lparr>socket := (socket d)\<lparr>is_closed := True\<rparr>,
               trace := trace d
         @ (if now > give_up_at self then [Log DEBUG TimedOut, Close] else [])
         @ [Log WARNING (Unrecognized data), Close]\<rparr>)
    \<and> handoffs (trace (snd (handle_read detectors now self d))) = handoffs (trace d)"
proof -
  have l: "required_size self \<le> int (length data)" using assms(2) by simp
  have r: "handle_read detectors now self d =
      (None, d\<lparr>socket := (socket d)\<lparr>is_closed := True\<rparr>,
               trace := trace d
         @ (if now > give_up_at self then [Log DEBUG TimedOut, Close] else [])
         @ [Log WARNING (Unrecognized data), Close]\<rparr>)"
    unfolding handle_read_full [OF assms(1) l] using assms(3)
    by (simp add: detect_loop_find)
  show ?thesis unfolding r by (simp add: handoffs_append)
qed

theorem handle_read_no_match_witness:
  "handle_read [ping, pi_any] 3 \<lparr>required_size = 4, give_up_at = 10\<rparr>
     (Dispatcher NoImpl (client ''GET /''))
   = (None, \<lparr>socket = (client ''GET /'')\<lparr>is_closed := True\<rparr>, impl = NoImpl,
        trace = [Log WARNING (Unrecognized ''GET ''), Close]\<rparr>)
   \<and> handoffs (trace (snd (handle_read [ping, pi_any] 3 \<lparr>required_size = 4, give_up_at = 10\<rparr>
        (Dispatcher NoImpl (client ''GET /''))))) = []"
  using handle_read_no_match
    [of "\<lparr>required_size = 4, give_up_at = 10\<rparr>" "Dispatcher NoImpl (client ''GET /'')" "''GET ''"
        "[ping, pi_any]" 3]
  by (simp add: recv_def Dispatcher_def)

subsection \<open>Accepting with and without detectors\<close>

text \<open>
  C10. On an acceptor without TLS context, \<open>handle_accept\<close> raises
  (\<open>ValueError\<close>, from the \<open>max\<close> of an empty sequence in
  \<open>_ProtocolDetector.__init__\<close>) when no detector is registered, so no
  dispatcher is added to the reactor. With detectors registered, the new
  dispatcher's \<open>required_size\<close> is the maximum of their \<open>REQUIRED_SIZE\<close> at that
  moment, and a detector registered afterwards does not change it.
\<close>

theorem handle_accept_needs_detector:
  assumes "sslctx acc = None"
  shows "(handlers acc = [] \<longrightarrow> handle_accept acc now c = Inl ValueError)
    \<and> (handlers acc \<noteq> [] \<longrightarrow>
         (\<exists>acc'. handle_accept acc now c = Inr acc'
            \<and> reactor acc' = reactor acc @
                 [Dispatcher (Detecting
                    \<lparr>required_size = Max (REQUIRED_SIZE ` set (handlers acc)),
                     give_up_at = now + TIMEOUT acc\<rparr>) c]
            \<and> reactor (add_detector x acc') = reactor acc'))"
proof (cases "handlers acc")
  case Nil
  then show ?thesis using assms
    by (simp add: handle_accept_def register_protocol_detector_def ProtocolDetector_init_def)
next
  case (Cons h hs)
  then have ne: "handlers acc \<noteq> []" by simp
  show ?thesis using assms ne
    by (simp add: handle_accept_def register_protocol_detector_value [OF ne]
        Dispatcher_def add_detector_def)
qed

theorem handle_accept_needs_detector_witness:
  "handle_accept \<lparr>sslctx = None, handlers = [], TIMEOUT = 10, reactor = []\<rparr> 0 (client '''')
     = Inl ValueError
   \<and> (\<exists>acc'. handle_accept \<lparr>sslctx = None, handlers = [pi_any, ping], TIMEOUT = 10, reactor = []\<rparr>
                 0 (client '''') = Inr acc'
        \<and> reactor acc' = [Dispatcher (Detecting \<lparr>required_size = 4, give_up_at = 10\<rparr>) (client '''')]
        \<and> reactor (add_detector \<lparr>NAME = ''long'', REQUIRED_SIZE = 9, detect = (\<lambda>data. False)\<rparr> acc')
            = reactor acc')"
  using handle_accept_needs_detector
      [of "\<lparr>sslctx = None, handlers = [], TIMEOUT = 10, reactor = []\<rparr>" 0 "client ''''"]
    handle_accept_needs_detector
      [of "\<lparr>sslctx = None, handlers = [pi_any, ping], TIMEOUT = 10, reactor = []\<rparr>" 0 "client ''''"
          "\<lparr>NAME = ''long'', REQUIRED_SIZE = 9, detect = (\<lambda>data. False)\<rparr>"]
  by simp

section \<open>Properties of the readers-writer lock\<close>

lemma grant_ahead:
  "(a, Exclusive) \<in> set (takeWhile (\<lambda>w. fst w \<noteq> b) q) \<Longrightarrow> \<not> holds s b \<Longrightarrow>
   \<not> holds (grant q s) b \<and>
   ((a, Exclusive) \<in> set (takeWhile (\<lambda>w. fst w \<noteq> b) (wait_queue (grant q s)))
    \<or> holds_exclusive (grant q s) a)"
proof (induction q s rule: grant.induct)
  case (1 s)
  then show ?case by simp
next
  case (2 t q s)
  then show ?case
    by (auto simp: holds_def holds_exclusive_def holds_shared_def split: if_splits)
next
  case (3 t q s)
  then have tb: "t \<noteq> b" by (auto split: if_splits)
  show ?case
  proof (cases "holder_exclusive s = None")
    case True
    have "\<not> holds (grant_shared t s) b"
      using 3(3) tb
      by (simp add: holds_def holds_exclusive_def holds_shared_def grant_shared_def update_conv')
    moreover have "(a, Exclusive) \<in> set (takeWhile (\<lambda>w. fst w \<noteq> b) q)"
      using 3(2) tb by simp
    ultimately show ?thesis using 3(1) True by simp
  next
    case False
    then show ?thesis using 3(2,3)
      by (auto simp: holds_def holds_exclusive_def holds_shared_def)
  qed
qed

lemma takeWhile_snoc_mem:
  "x \<in> set (takeWhile P q) \<Longrightarrow> x \<in> set (takeWhile P (q @ [y]))"
  by (induction q) (auto split: if_splits)

lemma wake_ahead:
  assumes "(a, Exclusive) \<in> set (takeWhile (\<lambda>w. fst w \<noteq> b) (wait_queue s))"
    and "\<not> holds s b"
  shows "ahead (wake s) a b \<or> (holds_exclusive (wake s) a \<and> \<not> holds (wake s) b)"
  using grant_ahead [OF assms] by (auto simp: wake_def ahead_def)

lemma enqueue_ahead:
  assumes "ahead s a b"
  shows "ahead (snd (enqueue t m s)) a b
         \<or> (holds_exclusive (snd (enqueue t m s)) a \<and> \<not> holds (snd (enqueue t m s)) b)"
proof -
  let ?s = "s\<lparr>wait_queue := wait_queue s @ [(t, m)]\<rparr>"
  have 1: "(a, Exclusive) \<in> set (takeWhile (\<lambda>w. fst w \<noteq> b) (wait_queue ?s))"
    using assms by (simp add: ahead_def takeWhile_snoc_mem)
  have 2: "\<not> holds ?s b"
    using assms by (simp add: ahead_def holds_def holds_exclusive_def holds_shared_def)
  show ?thesis using wake_ahead [OF 1 2] by (simp add: enqueue_def Let_def)
qed

lemma acquire_shared_ahead:
  assumes "ahead s a b"
  shows "ahead (snd (acquire_shared t s)) a b
         \<or> (holds_exclusive (snd (acquire_shared t s)) a
             \<and> \<not> holds (snd (acquire_shared t s)) b)"
proof (cases "holds_shared s t \<or> holds_exclusive s t")
  case True
  then have "t \<noteq> b" using assms by (auto simp: ahead_def holds_def)
  then have "ahead (grant_shared t s) a b"
    using assms
    by (simp add: ahead_def holds_def holds_exclusive_def holds_shared_def grant_shared_def
        update_conv')
  then show ?thesis using True by (simp add: acquire_shared_def)
next
  case False
  then show ?thesis using enqueue_ahead [OF assms] by (simp add: acquire_shared_def)
qed

lemma acquire_exclusive_ahead:
  assumes "ahead s a b"
  shows "ahead (snd (acquire_exclusive t s)) a b
         \<or> (holds_exclusive (snd (acquire_exclusive t s)) a
             \<and> \<not> holds (snd (acquire_exclusive t s)) b)"
proof (cases "holder_exclusive s")
  case None
  then show ?thesis using enqueue_ahead [OF assms] assms by (simp add: acquire_exclusive_def)
next
  case (Some h)
  obtain u n where h: "h = (u, n)" by (cases h)
  show ?thesis
  proof (cases "u = t")
    case True
    then have "ahead (s\<lparr>holder_exclusive := Some (t, Suc n)\<rparr>) a b"
      using assms Some h
      by (auto simp: ahead_def holds_def holds_exclusive_def holds_shared_def)
    then show ?thesis using Some h True by (simp add: acquire_exclusive_def)
  next
    case False
    then show ?thesis using enqueue_ahead [OF assms] assms Some h
      by (simp add: acquire_exclusive_def)
  qed
qed

lemma release_ahead:
  assumes "ahead s a b"
  shows "ahead (snd (release t s)) a b
         \<or> (holds_exclusive (snd (release t s)) a \<and> \<not> holds (snd (release t s)) b)"
proof (cases "holds_exclusive s t")
  case True
  then obtain n where h: "holder_exclusive s = Some (t, n)"
    by (auto simp: holds_exclusive_def split: option.splits)
  let ?s = "s\<lparr>holder_exclusive := (if n \<le> 1 then None else Some (t, n - 1))\<rparr>"
  have tb: "t \<noteq> b" using assms True by (auto simp: ahead_def holds_def)
  have 1: "(a, Exclusive) \<in> set (takeWhile (\<lambda>w. fst w \<noteq> b) (wait_queue ?s))"
    using assms by (simp add: ahead_def)
  have 2: "\<not> holds ?s b"
    using assms tb by (simp add: ahead_def holds_def holds_exclusive_def holds_shared_def)
  show ?thesis using wake_ahead [OF 1 2] True h by (simp add: release_def)
next
  case False
  show ?thesis
  proof (cases "map_of (holders_shared s) t")
    case None
    then show ?thesis using assms False by (simp add: release_def)
  next
    case (Some n)
    let ?s = "s\<lparr>holders_shared :=
                (if n \<le> 1 then AList.delete t (holders_shared s)
                 else AList.update t (n - 1) (holders_shared s))\<rparr>"
    have 1: "(a, Exclusive) \<in> set (takeWhile (\<lambda>w. fst w \<noteq> b) (wait_queue ?s))"
      using assms by (simp add: ahead_def)
    have tb: "t \<noteq> b"
      using assms Some by (auto simp: ahead_def holds_def holds_shared_def)
    have 2: "\<not> holds ?s b"
      using assms tb
      by (simp add: ahead_def holds_def holds_exclusive_def holds_shared_def update_conv'
          delete_conv')
    show ?thesis using wake_ahead [OF 1 2] False Some by (simp add: release_def)
  qed
qed

lemma step_ahead:
  "ahead s a b \<Longrightarrow>
   ahead (step r s) a b \<or> (holds_exclusive (step r s) a \<and> \<not> holds (step r s) b)"
  by (cases r) (simp_all add: acquire_shared_ahead acquire_exclusive_ahead release_ahead)

lemma run_Cons: "run (r # rs) s = run rs (step r s)"
  by (simp add: run_def)

lemma run_Nil: "run [] s = s"
  by (simp add: run_def)

lemma fifo_run:
  "ahead s a b \<Longrightarrow> holds (run rs s) b \<Longrightarrow>
   \<exists>k<length rs. holds_exclusive (run (take (Suc k) rs) s) a
      \<and> (\<forall>j\<le>Suc k. \<not> holds (run (take j rs) s) b)"
proof (induction rs arbitrary: s)
  case Nil
  then show ?case by (simp add: run_Nil ahead_def)
next
  case (Cons r rs)
  have nb: "\<not> holds s b" using Cons.prems(1) by (simp add: ahead_def)
  from step_ahead [OF Cons.prems(1), of r]
  show ?case
  proof
    assume a: "ahead (step r s) a b"
    from Cons.IH [OF a] Cons.prems(2)
    obtain k where k: "k < length rs"
      "holds_exclusive (run (take (Suc k) rs) (step r s)) a"
      "\<forall>j\<le>Suc k. \<not> holds (run (take j rs) (step r s)) b"
      by (auto simp: run_Cons)
    have "\<forall>j\<le>Suc (Suc k). \<not> holds (run (take j (r # rs)) s) b"
    proof (intro allI impI)
      fix j assume j: "j \<le> Suc (Suc k)"
      show "\<not> holds (run (take j (r # rs)) s) b"
      proof (cases j)
        case 0
        then show ?thesis using nb by (simp add: run_Nil)
      next
        case (Suc i)
        then show ?thesis using k(3) j by (simp add: run_Cons)
      qed
    qed
    then show ?thesis using k(1,2) by (intro exI [of _ "Suc k"]) (simp add: run_Cons)
  next
    assume h: "holds_exclusive (step r s) a \<and> \<not> holds (step r s) b"
    have "\<forall>j\<le>Suc 0. \<not> holds (run (take j (r # rs)) s) b"
    proof (intro allI impI)
      fix j :: nat assume "j \<le> Suc 0"
      then consider "j = 0" | "j = Suc 0" by arith
      then show "\<not> holds (run (take j (r # rs)) s) b"
        using nb h by cases (simp_all add: run_Cons run_Nil)
    qed
    then show ?thesis using h by (intro exI [of _ 0]) (simp add: run_Cons run_Nil)
  qed
qed

text \<open>
  C8. An identity that holds the lock in shared mode (and is not its exclusive
  holder, who may re-acquire) and asks for exclusive gets the programmer error,
  and the lock is left exactly as it was: its shared entry, every other holder
  and the queue.
\<close>

theorem promotion_forbidden:
  "holds_shared s t \<Longrightarrow> \<not> holds_exclusive s t \<Longrightarrow>
   acquire_exclusive t s = (ProgrammerError, s)"
  by (auto simp: acquire_exclusive_def holds_exclusive_def split: option.splits)

theorem promotion_forbidden_witness:
  "acquire_shared 1 RWLock
     = (Done, \<lparr>holder_exclusive = None, holders_shared = [(1, 1)], wait_queue = []\<rparr>)
   \<and> acquire_exclusive 1 \<lparr>holder_exclusive = None, holders_shared = [(1, 1)], wait_queue = []\<rparr>
     = (ProgrammerError, \<lparr>holder_exclusive = None, holders_shared = [(1, 1)], wait_queue = []\<rparr>)"
  using promotion_forbidden
    [of "\<lparr>holder_exclusive = None, holders_shared = [(1, 1)], wait_queue = []\<rparr>" 1]
  by (simp add: acquire_shared_def enqueue_def wake_def RWLock_def holds_shared_def
      holds_exclusive_def grant_shared_def)

text \<open>
  C9. FIFO. Let \<open>a\<close> wait for exclusive with no entry of \<open>b\<close> before it in the
  queue, and let \<open>b\<close> hold nothing (\<open>ahead s a b\<close>). Then a shared request of
  \<open>b\<close> blocks, whoever holds the lock; and in every run of calls from there, if
  \<open>b\<close> holds the lock at the end, then at some earlier point of the run \<open>a\<close> held
  it exclusively while \<open>b\<close> had not held it at any point up to then.
\<close>

theorem fifo_exclusive_waiter_first:
  assumes "ahead s a b"
  shows "fst (acquire_shared b s) = Blocked
    \<and> (\<forall>rs. holds (run rs s) b \<longrightarrow>
         (\<exists>k<length rs. holds_exclusive (run (take (Suc k) rs) s) a
            \<and> (\<forall>j\<le>Suc k. \<not> holds (run (take j rs) s) b)))"
proof (intro conjI allI impI)
  have nb: "\<not> holds s b" using assms by (simp add: ahead_def)
  have "\<not> holds (snd (enqueue b Shared s)) b"
    using enqueue_ahead [OF assms, of b Shared] by (auto simp: ahead_def)
  then have "\<not> holds_shared (snd (enqueue b Shared s)) b" by (simp add: holds_def)
  then have "fst (enqueue b Shared s) = Blocked" by (simp add: enqueue_def Let_def)
  then show "fst (acquire_shared b s) = Blocked"
    using nb by (simp add: acquire_shared_def holds_def)
next
  fix rs assume "holds (run rs s) b"
  then show "\<exists>k<length rs. holds_exclusive (run (take (Suc k) rs) s) a
      \<and> (\<forall>j\<le>Suc k. \<not> holds (run (take j rs) s) b)"
    by (rule fifo_run [OF assms])
qed

theorem fifo_exclusive_waiter_first_witness:
  "ahead \<lparr>holder_exclusive = None, holders_shared = [(1, 1)], wait_queue = [(2, Exclusive)]\<rparr> 2 3
   \<and> fst (acquire_shared 3
        \<lparr>holder_exclusive = None, holders_shared = [(1, 1)], wait_queue = [(2, Exclusive)]\<rparr>)
      = Blocked
   \<and> run [AcquireShared 3, Release 1, Release 2]
        \<lparr>holder_exclusive = None, holders_shared = [(1, 1)], wait_queue = [(2, Exclusive)]\<rparr>
      = \<lparr>holder_exclusive = None, holders_shared = [(3, 1)], wait_queue = []\<rparr>
   \<and> (\<exists>k<length [AcquireShared 3, Release 1, Release 2].
        holds_exclusive (run (take (Suc k) [AcquireShared 3, Release 1, Release 2])
          \<lparr>holder_exclusive = None, holders_shared = [(1, 1)], wait_queue = [(2, Exclusive)]\<rparr>) 2
        \<and> (\<forall>j\<le>Suc k. \<not> holds (run (take j [AcquireShared 3, Release 1, Release 2])
          \<lparr>holder_exclusive = None, holders_shared = [(1, 1)], wait_queue = [(2, Exclusive)]\<rparr>) 3))"
proof -
  let ?s = "\<lparr>holder_exclusive = None, holders_shared = [(1, 1)], wait_queue = [(2, Exclusive)]\<rparr>"
  let ?rs = "[AcquireShared 3, Release 1, Release 2]"
  have a: "ahead ?s 2 3"
    by (simp add: ahead_def holds_def holds_shared_def holds_exclusive_def)
  have r: "run ?rs ?s = \<lparr>holder_exclusive = None, holders_shared = [(3, 1)], wait_queue = []\<rparr>"
    by (simp add: run_def acquire_shared_def enqueue_def wake_def release_def holds_shared_def
        holds_exclusive_def current_owner_mode_def grant_shared_def)
  have h: "holds (run ?rs ?s) 3"
    unfolding r by (simp add: holds_def holds_shared_def)
  from fifo_exclusive_waiter_first [OF a]
  have b: "fst (acquire_shared 3 ?s) = Blocked"
    and f: "\<exists>k<length ?rs. holds_exclusive (run (take (Suc k) ?rs) ?s) 2
        \<and> (\<forall>j\<le>Suc k. \<not> holds (run (take j ?rs) ?s) 3)"
    using h by blast+
  from a b r f show ?thesis by blast
qed

end
